theory Spec2Isabelle
  imports Main "HOL-Library.Multiset"
begin

section \<open>Memory kinds and the strings that name them\<close>

text \<open>
  The program under study is \<open>examples-src/mem_alloc_cuda_example.cpp\<close>: one \<open>main\<close> that
  every process of an MPI job runs. It asks the session which memory allocation kinds the
  library supports, agrees with the other processes on one of them, and sums a one-integer
  buffer of that kind over all processes.
\<close>

datatype kind = System | Device | Managed

text \<open>The identifiers the source compares against and asserts (lines 25, 43, 46, 59, 77, 92).\<close>

fun kind_name :: "kind \<Rightarrow> string" where
  "kind_name System = ''system''"
| "kind_name Device = ''cuda:device''"
| "kind_name Managed = ''cuda:managed''"

text \<open>The preference order of the negotiation: Managed before Device before System.\<close>

fun pref :: "kind \<Rightarrow> nat" where
  "pref System = 0"
| "pref Device = 1"
| "pref Managed = 2"

subsection \<open>The C string functions the query uses\<close>

text \<open>
  A C string ends at its first NUL byte: \<open>c_string\<close> is what the string functions see of a
  buffer.
\<close>

definition c_string :: "string \<Rightarrow> string" where
  "c_string buf = takeWhile (\<lambda>c. c \<noteq> CHR 0x00) buf"

text \<open>\<open>tolower\<close> in the C locale: only the letters A to Z change.\<close>

definition tolower :: "char \<Rightarrow> char" where
  "tolower c =
     (if 65 \<le> (of_char c :: nat) \<and> (of_char c :: nat) \<le> 90
      then char_of (of_char c + (32::nat)) else c)"

text \<open>
  \<open>strcasecmp\<close>: the difference of the first pair of bytes that differ after \<open>tolower\<close>,
  the end of a string counting as byte 0; 0 when there is none.
\<close>

fun strcasecmp :: "string \<Rightarrow> string \<Rightarrow> int" where
  "strcasecmp [] [] = 0"
| "strcasecmp [] (b # bs) = - int (of_char (tolower b))"
| "strcasecmp (a # as) [] = int (of_char (tolower a))"
| "strcasecmp (a # as) (b # bs) =
     (if tolower a = tolower b then strcasecmp as bs
      else int (of_char (tolower a)) - int (of_char (tolower b)))"

text \<open>
  \<open>strsep(&val, ",")\<close> on the variable \<open>val\<close> (\<open>None\<close> is the NULL pointer): the token
  returned and the new value of \<open>val\<close>. The token runs to the first comma, which is
  overwritten by NUL, and \<open>val\<close> moves behind it; without a comma the token is the whole
  rest and \<open>val\<close> becomes NULL.
\<close>

fun strsep :: "string option \<Rightarrow> string option \<times> string option" where
  "strsep None = (None, None)"
| "strsep (Some s) =
     (if CHR '','' \<in> set s
      then (Some (takeWhile (\<lambda>c. c \<noteq> CHR '','') s),
            Some (tl (dropWhile (\<lambda>c. c \<noteq> CHR '','') s)))
      else (Some s, None))"


section \<open>The state of one process\<close>

text \<open>
  The memory \<open>main\<close> passes to MPI and CUDA calls or dereferences: the parse buffer
  \<open>val\<close> (line 36), the two flag variables (lines 10, 11) and the three one-integer
  buffers (lines 108, 122, 126). Each has the memory kind of the call that allocates it.
\<close>

datatype region = R_val | R_cuda_managed_aware | R_cuda_device_aware
  | R_system_buf | R_device_buf | R_managed_buf

fun region_kind :: "region \<Rightarrow> kind" where
  "region_kind R_val = System"
| "region_kind R_cuda_managed_aware = System"
| "region_kind R_cuda_device_aware = System"
| "region_kind R_system_buf = System"
| "region_kind R_device_buf = Device"
| "region_kind R_managed_buf = Managed"

text \<open>
  A communicator handle: the value of \<open>mpi_assert_memory_alloc_kinds\<close> in the info object
  it was created with, its string tag, and the size of its group.
\<close>

record comm =
  asserted :: string
  tag :: string
  group_size :: nat

datatype rop = MPI_LAND | MPI_SUM

text \<open>
  What a process does, in program order: the MPI, CUDA and allocation calls of \<open>main\<close> and
  its pointer dereferences (\<open>Host_write\<close> and \<open>Host_read\<close>, lines 109, 116, 123, 137, 152).
  \<open>Host_read\<close> carries the value the load returned, \<open>None\<close> when it returned none;
  \<open>Free\<close> carries the content of the integer buffer at that moment.
\<close>

datatype event =
    Info_create
  | Info_set string string
  | Info_free
  | Info_get_string string
  | Session_init
  | Session_get_info
  | Session_finalize
  | Group_from_session_pset string
  | Group_free
  | Comm_create_from_group comm
  | Comm_size comm
  | Comm_disconnect comm
  | Allreduce rop region comm
  | Alloc region
  | Alloc_failed region
  | Free region "int option"
  | Host_write region int
  | Host_read region "int option"
  | MemcpyAsync region region
  | StreamSynchronize
  | Printf string

text \<open>
  The variables of \<open>main\<close>. A buffer variable holds the content of the integer it points
  to, \<open>None\<close> while there is none (not allocated, not written yet, or freed). A communicator
  variable is \<open>None\<close> for \<open>MPI_COMM_NULL\<close> (\<open>system_comm\<close>: until line 62 assigns it).
  \<open>stream\<close> is the default CUDA stream: the copies issued and not yet waited for, as
  (destination, source).
\<close>

record pstate =
  cuda_device_aware :: int
  cuda_managed_aware :: int
  nranks :: int
  managed_buf :: "int option"
  device_buf :: "int option"
  system_buf :: "int option"
  system_comm :: "comm option"
  cuda_managed_comm :: "comm option"
  cuda_device_comm :: "comm option"
  stream :: "(region \<times> region) list"
  trace :: "event list"

definition init :: pstate where
  "init = \<lparr>cuda_device_aware = 0, cuda_managed_aware = 0, nranks = 0,
     managed_buf = None, device_buf = None, system_buf = None,
     system_comm = None, cuda_managed_comm = None, cuda_device_comm = None,
     stream = [], trace = []\<rparr>"

definition log :: "event \<Rightarrow> pstate \<Rightarrow> pstate" where
  "log e s = s\<lparr>trace := trace s @ [e]\<rparr>"

fun cell :: "region \<Rightarrow> pstate \<Rightarrow> int option" where
  "cell R_val s = None"
| "cell R_cuda_managed_aware s = Some (cuda_managed_aware s)"
| "cell R_cuda_device_aware s = Some (cuda_device_aware s)"
| "cell R_system_buf s = system_buf s"
| "cell R_device_buf s = device_buf s"
| "cell R_managed_buf s = managed_buf s"

fun store :: "region \<Rightarrow> int option \<Rightarrow> pstate \<Rightarrow> pstate" where
  "store R_val v s = s"
| "store R_cuda_managed_aware v s = (case v of None \<Rightarrow> s | Some x \<Rightarrow> s\<lparr>cuda_managed_aware := x\<rparr>)"
| "store R_cuda_device_aware v s = (case v of None \<Rightarrow> s | Some x \<Rightarrow> s\<lparr>cuda_device_aware := x\<rparr>)"
| "store R_system_buf v s = s\<lparr>system_buf := v\<rparr>"
| "store R_device_buf v s = s\<lparr>device_buf := v\<rparr>"
| "store R_managed_buf v s = s\<lparr>managed_buf := v\<rparr>"

subsection \<open>The CUDA and allocation calls\<close>

text \<open>
  \<open>cudaMemcpyAsync\<close> only queues the copy on the stream; the destination has the copied
  value once \<open>cudaStreamSynchronize\<close> has drained the stream. A read of the destination in
  between sees the old content.
\<close>

definition cudaMemcpyAsync :: "region \<Rightarrow> region \<Rightarrow> pstate \<Rightarrow> pstate" where
  "cudaMemcpyAsync dst src s = log (MemcpyAsync dst src) (s\<lparr>stream := stream s @ [(dst, src)]\<rparr>)"

definition copy :: "pstate \<Rightarrow> region \<times> region \<Rightarrow> pstate" where
  "copy s c = store (fst c) (cell (snd c) s) s"

definition cudaStreamSynchronize :: "pstate \<Rightarrow> pstate" where
  "cudaStreamSynchronize s = log StreamSynchronize ((foldl copy s (stream s))\<lparr>stream := []\<rparr>)"

text \<open>\<open>malloc\<close>, \<open>cudaMalloc\<close>, \<open>cudaMallocManaged\<close>: the new buffer has no content yet.\<close>

definition alloc :: "region \<Rightarrow> pstate \<Rightarrow> pstate" where
  "alloc r s = log (Alloc r) (store r None s)"

text \<open>\<open>free\<close>, \<open>cudaFree\<close>.\<close>

definition free :: "region \<Rightarrow> pstate \<Rightarrow> pstate" where
  "free r s = log (Free r (cell r s)) (store r None s)"

text \<open>
  Host code can load from and store to System and Managed memory. Memory from \<open>cudaMalloc\<close>
  is not host-accessible.
\<close>

definition host_accessible :: "region \<Rightarrow> bool" where
  "host_accessible r = (region_kind r \<noteq> Device)"


section \<open>Processes and collective calls\<close>

text \<open>
  How \<open>main\<close> can end: \<open>return\<close> with an exit code, a failed \<open>assert\<close>, an MPI error
  (the error handlers of lines 26, 62, 80, 95 abort), or a memory fault that kills the
  process (a host access to memory that is not host-accessible, a reduction over a buffer
  without content).
\<close>

datatype outcome = Exit int | Assert_failed | Mpi_abort | Fault

text \<open>
  A collective call blocks the process until every process of the group has made the
  matching call. \<open>MPI_Comm_create_from_group\<close> is matched by the asserted kinds and the tag;
  \<open>MPI_Allreduce\<close> by operation and communicator, and carries the content of the buffer.
\<close>

datatype request = Create_comm string string | Reduce rop int comm

text \<open>
  A process is finished, or blocked in a collective call with the rest of \<open>main\<close> waiting
  for the call's result.
\<close>

datatype proc = Finished outcome pstate | Blocked request "int \<Rightarrow> proc"

text \<open>Lines 58 to 63, 75 to 81 and 90 to 96: an info object, the collective call, the handle.\<close>

definition comm_create_from_group ::
  "string \<Rightarrow> string \<Rightarrow> pstate \<Rightarrow> (comm \<Rightarrow> pstate \<Rightarrow> proc) \<Rightarrow> proc" where
  "comm_create_from_group kinds tg s k =
     (let s = log Info_create s;
          s = log (Info_set ''mpi_assert_memory_alloc_kinds'' kinds) s
      in Blocked (Create_comm kinds tg)
           (\<lambda>n. let c = \<lparr>asserted = kinds, tag = tg, group_size = nat n\<rparr>;
                     s = log (Comm_create_from_group c) s;
                     s = log Info_free s
                 in k c s))"

text \<open>
  \<open>MPI_Allreduce(MPI_IN_PLACE, buf, 1, MPI_INT, op, comm)\<close>: the content of \<open>buf\<close> goes in,
  the result replaces it.
\<close>

definition allreduce ::
  "rop \<Rightarrow> region \<Rightarrow> comm option \<Rightarrow> pstate \<Rightarrow> (pstate \<Rightarrow> proc) \<Rightarrow> proc" where
  "allreduce op buf c s k =
     (case c of
        None \<Rightarrow> Finished Mpi_abort s
      | Some cm \<Rightarrow>
          (case cell buf s of
             None \<Rightarrow> Finished Fault s
           | Some v \<Rightarrow>
               Blocked (Reduce op v cm)
                 (\<lambda>r. k (store buf (Some r) (log (Allreduce op buf cm) s)))))"

text \<open>
  \<open>*p = v\<close> and \<open>*p\<close> in host code, with the rest of \<open>main\<close>. A dereference of memory that is
  not host-accessible is recorded and kills the process there; nothing is stored or loaded.
\<close>

definition host_write :: "region \<Rightarrow> int \<Rightarrow> pstate \<Rightarrow> (pstate \<Rightarrow> proc) \<Rightarrow> proc" where
  "host_write r v s k =
     (if host_accessible r then k (log (Host_write r v) (store r (Some v) s))
      else Finished Fault (log (Host_write r v) s))"

definition host_read :: "region \<Rightarrow> pstate \<Rightarrow> (int option \<Rightarrow> pstate \<Rightarrow> proc) \<Rightarrow> proc" where
  "host_read r s k =
     (if host_accessible r then k (cell r s) (log (Host_read r (cell r s)) s)
      else Finished Fault (log (Host_read r None) s))"

text \<open>
  \<open>MPI_Comm_disconnect\<close> releases the communicator; the caller sets the handle to
  \<open>MPI_COMM_NULL\<close>. The call is collective too, but every process makes it at the end of
  \<open>main\<close> with nothing pending, and the model lets each process through on its own.
\<close>

definition comm_disconnect :: "comm \<Rightarrow> pstate \<Rightarrow> pstate" where
  "comm_disconnect c s = log (Comm_disconnect c) s"

subsection \<open>The MPI library: completing collective calls\<close>

text \<open>
  The result of a reduction over the contributions of all processes. The values are C
  \<open>int\<close>s; the only sum the program takes is of one 1 per process, which is the group size
  and fits an \<open>int\<close> as \<open>MPI_Comm_size\<close> returns it, so no wrap-around is written out.
\<close>

fun reduce :: "rop \<Rightarrow> int list \<Rightarrow> int" where
  "reduce MPI_LAND vs = (if list_all (\<lambda>v. v \<noteq> 0) vs then 1 else 0)"
| "reduce MPI_SUM vs = sum_list vs"

fun agree :: "request \<Rightarrow> request \<Rightarrow> bool" where
  "agree (Create_comm a t) (Create_comm a' t') = (a = a' \<and> t = t')"
| "agree (Reduce op v c) (Reduce op' v' c') = (op = op' \<and> c = c')"
| "agree _ _ = False"

fun waits_for :: "request \<Rightarrow> proc \<Rightarrow> bool" where
  "waits_for q (Blocked q' k) = agree q q'"
| "waits_for q (Finished out s) = False"

fun contribution :: "proc \<Rightarrow> int" where
  "contribution (Blocked (Reduce op v c) k) = v"
| "contribution _ = 0"

fun complete :: "request \<Rightarrow> proc list \<Rightarrow> int" where
  "complete (Create_comm a t) ps = int (length ps)"
| "complete (Reduce op v c) ps = reduce op (map contribution ps)"

fun resume :: "int \<Rightarrow> proc \<Rightarrow> proc" where
  "resume r (Blocked q k) = k r"
| "resume r (Finished out s) = Finished out s"

text \<open>
  One collective completes when all processes are blocked in matching calls; otherwise
  nothing moves any more: the processes that are blocked stay blocked.
\<close>

fun mpi_step :: "proc list \<Rightarrow> proc list option" where
  "mpi_step [] = None"
| "mpi_step (Finished out s # ps) = None"
| "mpi_step (Blocked q k # ps) =
     (if list_all (waits_for q) ps
      then Some (map (resume (complete q (Blocked q k # ps))) (Blocked q k # ps))
      else None)"

fun mpi_run :: "nat \<Rightarrow> proc list \<Rightarrow> proc list" where
  "mpi_run 0 ps = ps"
| "mpi_run (Suc n) ps = (case mpi_step ps of None \<Rightarrow> ps | Some ps' \<Rightarrow> mpi_run n ps')"

section \<open>The program\<close>

text \<open>
  What the environment decides for one process: whether the session's info has the key
  \<open>mpi_memory_alloc_kinds\<close> (\<open>flag\<close>, line 31), its value, and whether the \<open>malloc\<close> of
  line 36 succeeds. The allocations of lines 108, 122 and 126 are not checked by the source;
  the model covers the runs in which they succeed.
\<close>

record input =
  key_found :: bool
  kinds_value :: string
  malloc_ok :: bool

text \<open>Lines 23 to 27.\<close>

definition session_init :: "pstate \<Rightarrow> pstate" where
  "session_init s =
     (let s = log Info_create s;
          s = log (Info_set ''mpi_memory_alloc_kinds'' ''system,cuda:device,cuda:managed'') s;
          s = log Session_init s
      in log Info_free s)"

text \<open>The loop of lines 42 to 49.\<close>

function parse_kinds :: "string option \<Rightarrow> pstate \<Rightarrow> pstate" where
  "parse_kinds val s =
     (case strsep val of
        (None, val') \<Rightarrow> s
      | (Some kind, val') \<Rightarrow>
          parse_kinds val'
            (if strcasecmp kind ''cuda:managed'' = 0 then s\<lparr>cuda_managed_aware := 1\<rparr>
             else if strcasecmp kind ''cuda:device'' = 0 then s\<lparr>cuda_device_aware := 1\<rparr>
             else s))"
  by pat_completeness auto
termination
proof (relation "measure (\<lambda>(val, s). case val of None \<Rightarrow> 0 | Some str \<Rightarrow> Suc (length str))")
  show "wf (measure (\<lambda>(val, s). case val of None \<Rightarrow> 0 | Some str \<Rightarrow> Suc (length str)))"
    by simp
next
  fix val :: "string option" and s :: pstate and x y x2
  assume "(x, y) = strsep val" and "x = Some x2"
  then show "((y, if strcasecmp x2 ''cuda:managed'' = 0 then s\<lparr>cuda_managed_aware := 1\<rparr>
                  else if strcasecmp x2 ''cuda:device'' = 0 then s\<lparr>cuda_device_aware := 1\<rparr>
                  else s), val, s)
             \<in> measure (\<lambda>(val, s). case val of None \<Rightarrow> 0 | Some str \<Rightarrow> Suc (length str))"
    by (cases val) (auto split: if_splits intro: le_imp_less_Suc order_trans [OF _ length_dropWhile_le])
qed

text \<open>Lines 29 to 53; \<open>Inl\<close> is the \<open>return 1\<close> of line 37.\<close>

definition query :: "input \<Rightarrow> pstate \<Rightarrow> pstate + pstate" where
  "query inp s =
     (let s = log Session_get_info s;
          s = log (Info_get_string ''mpi_memory_alloc_kinds'') s
      in if key_found inp then
           (if \<not> malloc_ok inp then Inl (log (Alloc_failed R_val) s)
            else
              (let s = alloc R_val s;
                   s = log (Info_get_string ''mpi_memory_alloc_kinds'') s;
                   s = parse_kinds (Some (c_string (kinds_value inp))) s;
                   s = free R_val s
               in Inr (log Info_free s)))
         else Inr (log Info_free s))"

text \<open>Lines 159 to 167.\<close>

definition finalize :: "pstate \<Rightarrow> proc" where
  "finalize s =
     (let s = (case cuda_managed_comm s of
                 None \<Rightarrow> s
               | Some c \<Rightarrow> (comm_disconnect c s)\<lparr>cuda_managed_comm := None\<rparr>);
          s = (case cuda_device_comm s of
                 None \<Rightarrow> s
               | Some c \<Rightarrow> (comm_disconnect c s)\<lparr>cuda_device_comm := None\<rparr>)
      in case system_comm s of
           None \<Rightarrow> Finished Mpi_abort s
         | Some c \<Rightarrow>
             (let s = (comm_disconnect c s)\<lparr>system_comm := None\<rparr>;
                  s = log Session_finalize s
              in Finished (Exit 0) s))"

text \<open>Lines 106 to 157: the three ways to reduce, each ending in its \<open>assert\<close>.\<close>

definition execute :: "pstate \<Rightarrow> proc" where
  "execute s =
     (if cuda_managed_aware s \<noteq> 0 then
        (let s = alloc R_managed_buf s
         in host_write R_managed_buf 1 s
              (\<lambda>s. allreduce MPI_SUM R_managed_buf (cuda_managed_comm s) s
                 (\<lambda>s. host_read R_managed_buf s
                    (\<lambda>v s. if v = Some (nranks s)
                           then finalize (free R_managed_buf s)
                           else Finished Assert_failed s))))
      else
        (let s = alloc R_system_buf s
         in host_write R_system_buf 1 s
              (\<lambda>s. let s = alloc R_device_buf s;
                       s = cudaMemcpyAsync R_device_buf R_system_buf s;
                       s = cudaStreamSynchronize s
                   in if cuda_device_aware s \<noteq> 0 then
                        allreduce MPI_SUM R_device_buf (cuda_device_comm s) s
                          (\<lambda>s. host_read R_device_buf s
                             (\<lambda>v s. if v = Some (nranks s)
                                    then finalize (free R_system_buf (free R_device_buf s))
                                    else Finished Assert_failed s))
                      else
                        (let s = cudaMemcpyAsync R_system_buf R_device_buf s;
                             s = cudaStreamSynchronize s
                         in allreduce MPI_SUM R_system_buf (system_comm s) s
                              (\<lambda>s. let s = cudaMemcpyAsync R_device_buf R_system_buf s;
                                       s = cudaStreamSynchronize s
                                   in host_read R_system_buf s
                                        (\<lambda>v s. if v = Some (nranks s)
                                               then finalize (free R_system_buf (free R_device_buf s))
                                               else Finished Assert_failed s))))))"

text \<open>Lines 55 to 103: the baseline communicator, then the two checks.\<close>

definition negotiate :: "pstate \<Rightarrow> proc" where
  "negotiate s =
     (let s = log (Group_from_session_pset ''mpi://WORLD'') s
      in comm_create_from_group ''system'' ''org.mpi-side-doc.mem-kind.example.system'' s
           (\<lambda>c s.
              let s = s\<lparr>system_comm := Some c\<rparr>;
                  s = log (Comm_size c) (s\<lparr>nranks := int (group_size c)\<rparr>)
              in allreduce MPI_LAND R_cuda_managed_aware (system_comm s) s
                   (\<lambda>s. if cuda_managed_aware s \<noteq> 0 then
                          comm_create_from_group ''cuda:managed''
                            ''org.mpi-side-doc.mem-kind.example.cuda.managed'' s
                            (\<lambda>c s. execute (log Group_free (s\<lparr>cuda_managed_comm := Some c\<rparr>)))
                        else
                          allreduce MPI_LAND R_cuda_device_aware (system_comm s) s
                            (\<lambda>s. if cuda_device_aware s \<noteq> 0 then
                                   comm_create_from_group ''cuda:device''
                                     ''org.mpi-side-doc.mem-kind.example.cuda.device'' s
                                     (\<lambda>c s. execute (log Group_free (s\<lparr>cuda_device_comm := Some c\<rparr>)))
                                 else
                                   execute (log Group_free
                                     (log (Printf (''Warning: cuda alloc kind not supported'' @ [CHR 0x0A])) s))))))"

definition main :: "input \<Rightarrow> proc" where
  "main inp =
     (case query inp (session_init init) of
        Inl s \<Rightarrow> Finished (Exit 1) s
      | Inr s \<Rightarrow> negotiate s)"

text \<open>
  The job: every process runs \<open>main\<close> on its own input. \<open>main\<close> makes at most five
  collective calls, so five rounds of the library are all there can be.
\<close>

definition mpi_job :: "input list \<Rightarrow> proc list" where
  "mpi_job ins = mpi_run 5 (map main ins)"


declare parse_kinds.simps [simp del]

section \<open>Notions the properties are stated with\<close>

subsection \<open>Runs\<close>

text \<open>A process gets past line 37 unless the key is there and the allocation fails.\<close>

definition proceeds :: "input \<Rightarrow> bool" where
  "proceeds inp = (key_found inp \<longrightarrow> malloc_ok inp)"

text \<open>The state in which a process leaves the query (at line 37 or after line 53).\<close>

definition after_query :: "input \<Rightarrow> pstate" where
  "after_query inp = (case query inp (session_init init) of Inl s \<Rightarrow> s | Inr s \<Rightarrow> s)"

text \<open>The accelerator kinds a process has found: its two local flags.\<close>

definition capability_set :: "input \<Rightarrow> kind set" where
  "capability_set inp =
     (if cuda_managed_aware (after_query inp) \<noteq> 0 then {Managed} else {}) \<union>
     (if cuda_device_aware (after_query inp) \<noteq> 0 then {Device} else {})"

text \<open>
  The kind a process has agreed on, as lines 106 and 131 read it off the two flags after
  the reductions.
\<close>

definition negotiated :: "pstate \<Rightarrow> kind" where
  "negotiated s =
     (if cuda_managed_aware s \<noteq> 0 then Managed
      else if cuda_device_aware s \<noteq> 0 then Device
      else System)"

text \<open>The kind a process has agreed on when it stops, however it stops.\<close>

fun result_kind :: "proc \<Rightarrow> kind option" where
  "result_kind (Finished out s) = Some (negotiated s)"
| "result_kind (Blocked q k) = None"

text \<open>How a process has ended, if it has, and what it has done.\<close>

fun ending :: "proc \<Rightarrow> outcome option" where
  "ending (Finished out s) = Some out"
| "ending (Blocked q k) = None"

fun proc_trace :: "proc \<Rightarrow> event list" where
  "proc_trace (Finished out s) = trace s"
| "proc_trace (Blocked q k) = []"


text \<open>Feeding a process the results of its next collective calls, one after the other.\<close>

fun feed :: "int list \<Rightarrow> proc \<Rightarrow> proc" where
  "feed [] p = p"
| "feed (r # rs) p = feed rs (resume r p)"

fun req :: "proc \<Rightarrow> request option" where
  "req (Blocked q k) = Some q"
| "req (Finished out s) = None"

subsection \<open>The negotiation as the specification words it\<close>

definition common :: "kind set list \<Rightarrow> kind \<Rightarrow> bool" where
  "common sets k = list_all (\<lambda>S. k \<in> S) sets"

definition spec_negotiate :: "kind set list \<Rightarrow> kind" where
  "spec_negotiate sets =
     (if common sets Managed then Managed
      else if common sets Device then Device
      else System)"

subsection \<open>The capability string\<close>

fun split_commas :: "string \<Rightarrow> string list" where
  "split_commas [] = [[]]"
| "split_commas (c # cs) =
     (if c = CHR '','' then [] # split_commas cs
      else (case split_commas cs of [] \<Rightarrow> [[c]] | t # ts \<Rightarrow> (c # t) # ts))"

text \<open>What the source does with a token: compare it as it is, ignoring case.\<close>

definition has_kind :: "kind \<Rightarrow> string \<Rightarrow> bool" where
  "has_kind k v = list_ex (\<lambda>t. map tolower t = kind_name k) (split_commas v)"

text \<open>
  What the specification says: split on commas, trim, compare ignoring case. White space is
  what \<open>isspace\<close> accepts in the C locale.
\<close>

definition isspace :: "char \<Rightarrow> bool" where
  "isspace c = (c \<in> set [CHR '' '', CHR 0x09, CHR 0x0A, CHR 0x0B, CHR 0x0C, CHR 0x0D])"

definition trim :: "string \<Rightarrow> string" where
  "trim t = rev (dropWhile isspace (rev (dropWhile isspace t)))"

definition spec_has_kind :: "kind \<Rightarrow> string \<Rightarrow> bool" where
  "spec_has_kind k v = list_ex (\<lambda>t. map tolower (trim t) = kind_name k) (split_commas v)"

subsection \<open>Traces\<close>



text \<open>The dereferences host code may make: of System and Managed memory.\<close>

fun host_access_ok :: "event \<Rightarrow> bool" where
  "host_access_ok (Host_write r v) = (region_kind r \<noteq> Device)"
| "host_access_ok (Host_read r v) = (region_kind r \<noteq> Device)"
| "host_access_ok _ = True"



fun creations :: "event list \<Rightarrow> comm list" where
  "creations [] = []"
| "creations (Comm_create_from_group c # es) = c # creations es"
| "creations (e # es) = creations es"

fun releases :: "event list \<Rightarrow> comm list" where
  "releases [] = []"
| "releases (Comm_disconnect c # es) = c # releases es"
| "releases (e # es) = releases es"

fun is_allreduce :: "event \<Rightarrow> bool" where
  "is_allreduce (Allreduce op r c) = True"
| "is_allreduce _ = False"

fun is_negotiation :: "event \<Rightarrow> bool" where
  "is_negotiation (Allreduce op r c) = (op = MPI_LAND)"
| "is_negotiation _ = False"

text \<open>The part of a trace before the first reduction, and the part after the last check.\<close>

definition before_negotiation :: "event list \<Rightarrow> event list" where
  "before_negotiation t = takeWhile (\<lambda>e. \<not> is_allreduce e) t"

definition after_negotiation :: "event list \<Rightarrow> event list" where
  "after_negotiation t = rev (takeWhile (\<lambda>e. \<not> is_negotiation e) (rev t))"

definition after_finalize :: "event list \<Rightarrow> event list" where
  "after_finalize t = dropWhile (\<lambda>e. e \<noteq> Session_finalize) t"

text \<open>The reductions of a trace: operation, buffer, and what the communicator asserts.\<close>

fun reductions :: "event list \<Rightarrow> (rop \<times> region \<times> string) list" where
  "reductions [] = []"
| "reductions (Allreduce op r c # es) = (op, r, asserted c) # reductions es"
| "reductions (e # es) = reductions es"

text \<open>A reduction is in order when its communicator asserts the kind of its buffer.\<close>

fun comm_matches :: "event \<Rightarrow> bool" where
  "comm_matches (Allreduce op r c) = (asserted c = kind_name (region_kind r))"
| "comm_matches _ = True"

text \<open>The buffer an event reads, reduces over, writes or frees.\<close>

fun uses :: "event \<Rightarrow> region list" where
  "uses (Allreduce op r c) = [r]"
| "uses (Free r v) = [r]"
| "uses (Host_write r v) = [r]"
| "uses (Host_read r v) = [r]"
| "uses (MemcpyAsync dst src) = [dst, src]"
| "uses _ = []"

text \<open>
  The discipline of the asynchronous copies: \<open>pend\<close> are the destinations of the copies
  issued and not yet waited for; no event may use one of them, and none is left in the end.
\<close>

fun sync_ok :: "region list \<Rightarrow> event list \<Rightarrow> bool" where
  "sync_ok pend [] = (pend = [])"
| "sync_ok pend (StreamSynchronize # es) = sync_ok [] es"
| "sync_ok pend (MemcpyAsync dst src # es) =
     (dst \<notin> set pend \<and> src \<notin> set pend \<and> sync_ok (dst # pend) es)"
| "sync_ok pend (e # es) = ((\<forall>r \<in> set (uses e). r \<notin> set pend) \<and> sync_ok pend es)"





text \<open>The accesses of a finished process that host code may not make.\<close>

fun host_violations :: "proc \<Rightarrow> event list" where
  "host_violations (Finished out s) = filter (\<lambda>e. \<not> host_access_ok e) (trace s)"
| "host_violations (Blocked q k) = []"

text \<open>
  What a process has done with communicators and buffers when it has stopped: the kinds
  asserted by the communicators it created and by those it released, whether it finalized
  the session, and its frees of a buffer.
\<close>

definition created :: "proc \<Rightarrow> string list" where
  "created p = map asserted (creations (proc_trace p))"

definition released :: "proc \<Rightarrow> string list" where
  "released p = map asserted (releases (proc_trace p))"

definition finalized :: "proc \<Rightarrow> bool" where
  "finalized p = (Session_finalize \<in> set (proc_trace p))"


subsection \<open>Example processes\<close>

text \<open>
  Processes whose library supports all three kinds, system and device memory, or system
  memory only, and one for which the allocation of line 36 fails.
\<close>

definition proc_full :: input where
  "proc_full = \<lparr>key_found = True, kinds_value = ''system,cuda:device,cuda:managed'', malloc_ok = True\<rparr>"

definition proc_device :: input where
  "proc_device = \<lparr>key_found = True, kinds_value = ''system,cuda:device'', malloc_ok = True\<rparr>"

definition proc_system :: input where
  "proc_system = \<lparr>key_found = True, kinds_value = ''system'', malloc_ok = True\<rparr>"

definition proc_failing :: input where
  "proc_failing = \<lparr>key_found = True, kinds_value = ''system,cuda:device,cuda:managed'', malloc_ok = False\<rparr>"

subsection \<open>Complete runs in closed form\<close>

text \<open>
  The proofs go through an explicit description of a run in which no process returns at
  line 37: the communicators, the events after the query for each outcome of the
  negotiation, the results of the collective calls in order, and how and in which state a
  process ends. On the Device path that is the memory fault of line 137, with the buffers
  allocated and the communicators open. The lemmas below show that the program produces
  exactly these.
\<close>

definition base_comm :: "nat \<Rightarrow> comm" where
  "base_comm n = \<lparr>asserted = ''system'', tag = ''org.mpi-side-doc.mem-kind.example.system'', group_size = n\<rparr>"

fun kind_comm :: "kind \<Rightarrow> nat \<Rightarrow> comm" where
  "kind_comm Managed n = \<lparr>asserted = ''cuda:managed'', tag = ''org.mpi-side-doc.mem-kind.example.cuda.managed'', group_size = n\<rparr>"
| "kind_comm Device n = \<lparr>asserted = ''cuda:device'', tag = ''org.mpi-side-doc.mem-kind.example.cuda.device'', group_size = n\<rparr>"
| "kind_comm System n = base_comm n"

definition create_events :: "comm \<Rightarrow> event list" where
  "create_events c = [Info_create, Info_set ''mpi_assert_memory_alloc_kinds'' (asserted c),
     Comm_create_from_group c, Info_free]"

fun run_trace :: "kind \<Rightarrow> nat \<Rightarrow> event list" where
  "run_trace Managed n =
     Group_from_session_pset ''mpi://WORLD'' # create_events (base_comm n) @
     [Comm_size (base_comm n), Allreduce MPI_LAND R_cuda_managed_aware (base_comm n)] @
     create_events (kind_comm Managed n) @
     [Group_free, Alloc R_managed_buf, Host_write R_managed_buf 1,
      Allreduce MPI_SUM R_managed_buf (kind_comm Managed n),
      Host_read R_managed_buf (Some (int n)), Free R_managed_buf (Some (int n)),
      Comm_disconnect (kind_comm Managed n), Comm_disconnect (base_comm n), Session_finalize]"
| "run_trace Device n =
     Group_from_session_pset ''mpi://WORLD'' # create_events (base_comm n) @
     [Comm_size (base_comm n), Allreduce MPI_LAND R_cuda_managed_aware (base_comm n),
      Allreduce MPI_LAND R_cuda_device_aware (base_comm n)] @
     create_events (kind_comm Device n) @
     [Group_free, Alloc R_system_buf, Host_write R_system_buf 1, Alloc R_device_buf,
      MemcpyAsync R_device_buf R_system_buf, StreamSynchronize,
      Allreduce MPI_SUM R_device_buf (kind_comm Device n),
      Host_read R_device_buf None]"
| "run_trace System n =
     Group_from_session_pset ''mpi://WORLD'' # create_events (base_comm n) @
     [Comm_size (base_comm n), Allreduce MPI_LAND R_cuda_managed_aware (base_comm n),
      Allreduce MPI_LAND R_cuda_device_aware (base_comm n),
      Printf (''Warning: cuda alloc kind not supported'' @ [CHR 0x0A]),
      Group_free, Alloc R_system_buf, Host_write R_system_buf 1, Alloc R_device_buf,
      MemcpyAsync R_device_buf R_system_buf, StreamSynchronize,
      MemcpyAsync R_system_buf R_device_buf, StreamSynchronize,
      Allreduce MPI_SUM R_system_buf (base_comm n),
      MemcpyAsync R_device_buf R_system_buf, StreamSynchronize,
      Host_read R_system_buf (Some (int n)),
      Free R_device_buf (Some (int n)), Free R_system_buf (Some (int n)),
      Comm_disconnect (base_comm n), Session_finalize]"

definition fresh :: "int \<Rightarrow> int \<Rightarrow> event list \<Rightarrow> pstate" where
  "fresh d m t = \<lparr>cuda_device_aware = d, cuda_managed_aware = m, nranks = 0,
     managed_buf = None, device_buf = None, system_buf = None,
     system_comm = None, cuda_managed_comm = None, cuda_device_comm = None,
     stream = [], trace = t\<rparr>"

fun results :: "kind \<Rightarrow> nat \<Rightarrow> int list" where
  "results Managed n = [int n, 1, int n, int n]"
| "results Device n = [int n, 0, 1, int n, int n]"
| "results System n = [int n, 0, 0, int n]"

fun local_flag :: "kind \<Rightarrow> input \<Rightarrow> int" where
  "local_flag k inp =
     (if key_found inp \<and> malloc_ok inp \<and> has_kind k (c_string (kinds_value inp)) then 1 else 0)"

definition query_trace :: "input \<Rightarrow> event list" where
  "query_trace inp =
     [Info_create, Info_set ''mpi_memory_alloc_kinds'' ''system,cuda:device,cuda:managed'',
      Session_init, Info_free, Session_get_info, Info_get_string ''mpi_memory_alloc_kinds''] @
     (if key_found inp then
        (if malloc_ok inp
         then [Alloc R_val, Info_get_string ''mpi_memory_alloc_kinds'', Free R_val None, Info_free]
         else [Alloc_failed R_val])
      else [Info_free])"

fun final_outcome :: "kind \<Rightarrow> outcome" where
  "final_outcome Managed = Exit 0"
| "final_outcome Device = Fault"
| "final_outcome System = Exit 0"

fun final_state :: "kind \<Rightarrow> nat \<Rightarrow> input \<Rightarrow> pstate" where
  "final_state Managed n inp =
     (fresh (local_flag Device inp) 1 (query_trace inp @ run_trace Managed n))\<lparr>nranks := int n\<rparr>"
| "final_state Device n inp =
     \<lparr>cuda_device_aware = 1, cuda_managed_aware = 0, nranks = int n,
      managed_buf = None, device_buf = Some (int n), system_buf = Some 1,
      system_comm = Some (base_comm n), cuda_managed_comm = None,
      cuda_device_comm = Some (kind_comm Device n),
      stream = [], trace = query_trace inp @ run_trace Device n\<rparr>"
| "final_state System n inp =
     (fresh 0 0 (query_trace inp @ run_trace System n))\<lparr>nranks := int n\<rparr>"

section \<open>Lemmas\<close>

subsection \<open>The string functions and the loop\<close>

lemma split_commas_nonempty: "split_commas s \<noteq> []"
  by (induction s) (auto split: list.splits)

lemma split_commas_no_comma:
  "CHR '','' \<notin> set s \<Longrightarrow> split_commas s = [s]"
  by (induction s) auto

lemma split_commas_strsep:
  "CHR '','' \<in> set s \<Longrightarrow>
   split_commas s = takeWhile (\<lambda>c. c \<noteq> CHR '','') s # split_commas (tl (dropWhile (\<lambda>c. c \<noteq> CHR '','') s))"
  by (induction s) (auto simp: split_commas_no_comma)

lemma tolower_nul: "(of_char (tolower c) = (0::nat)) = (of_char c = (0::nat))"
  by (auto simp: tolower_def)

lemma of_char_nul: "(of_char c = (0::nat)) = (c = CHR 0x00)"
  by (cases c) simp

lemma tolower_pos: "CHR 0x00 \<noteq> c \<Longrightarrow> 0 < (of_char (tolower c) :: nat)"
  using tolower_nul [of c] of_char_nul [of c] by auto

lemma strcasecmp_eq:
  "CHR 0x00 \<notin> set a \<Longrightarrow> CHR 0x00 \<notin> set b \<Longrightarrow>
   (strcasecmp a b = 0) = (map tolower a = map tolower b)"
  by (induction a b rule: strcasecmp.induct) (auto simp: tolower_pos)

lemma parse_kinds_None: "parse_kinds None s = s"
  by (simp add: parse_kinds.simps)

lemma parse_kinds_last:
  "CHR '','' \<notin> set str \<Longrightarrow>
   parse_kinds (Some str) s =
     (if strcasecmp str ''cuda:managed'' = 0 then s\<lparr>cuda_managed_aware := 1\<rparr>
      else if strcasecmp str ''cuda:device'' = 0 then s\<lparr>cuda_device_aware := 1\<rparr>
      else s)"
  by (simp add: parse_kinds.simps [of "Some str"] parse_kinds_None)

lemma parse_kinds_next:
  "CHR '','' \<in> set str \<Longrightarrow>
   parse_kinds (Some str) s =
     parse_kinds (Some (tl (dropWhile (\<lambda>c. c \<noteq> CHR '','') str)))
       (if strcasecmp (takeWhile (\<lambda>c. c \<noteq> CHR '','') str) ''cuda:managed'' = 0
        then s\<lparr>cuda_managed_aware := 1\<rparr>
        else if strcasecmp (takeWhile (\<lambda>c. c \<noteq> CHR '','') str) ''cuda:device'' = 0
        then s\<lparr>cuda_device_aware := 1\<rparr>
        else s)"
  by (simp add: parse_kinds.simps [of "Some str"])

lemma parse_kinds_tokens:
  "parse_kinds (Some str) s =
     s\<lparr>cuda_device_aware :=
         (if \<exists>t\<in>set (split_commas str). strcasecmp t ''cuda:managed'' \<noteq> 0 \<and> strcasecmp t ''cuda:device'' = 0
          then 1 else cuda_device_aware s),
       cuda_managed_aware :=
         (if \<exists>t\<in>set (split_commas str). strcasecmp t ''cuda:managed'' = 0
          then 1 else cuda_managed_aware s)\<rparr>"
proof (induction str arbitrary: s rule: length_induct)
  case (1 str)
  show ?case
  proof (cases "CHR '','' \<in> set str")
    case False
    then show ?thesis
      by (simp add: parse_kinds_last split_commas_no_comma)
  next
    case True
    let ?rest = "tl (dropWhile (\<lambda>c. c \<noteq> CHR '','') str)"
    have "dropWhile (\<lambda>c. c \<noteq> CHR '','') str \<noteq> []"
      using True by simp
    then have "length ?rest < length (dropWhile (\<lambda>c. c \<noteq> CHR '','') str)"
      by (cases "dropWhile (\<lambda>c. c \<noteq> CHR '','') str") simp_all
    then have "length ?rest < length str"
      using length_dropWhile_le [of "\<lambda>c. c \<noteq> CHR '',''" str] by linarith
    with 1 have ih: "\<And>s. parse_kinds (Some ?rest) s =
     s\<lparr>cuda_device_aware :=
         (if \<exists>t\<in>set (split_commas ?rest). strcasecmp t ''cuda:managed'' \<noteq> 0 \<and> strcasecmp t ''cuda:device'' = 0
          then 1 else cuda_device_aware s),
       cuda_managed_aware :=
         (if \<exists>t\<in>set (split_commas ?rest). strcasecmp t ''cuda:managed'' = 0
          then 1 else cuda_managed_aware s)\<rparr>"
      by blast
    show ?thesis
      by (auto simp add: parse_kinds_next [OF True] split_commas_strsep [OF True] ih)
  qed
qed

lemma split_commas_chars: "t \<in> set (split_commas s) \<Longrightarrow> set t \<subseteq> set s"
proof (induction s arbitrary: t)
  case Nil
  then show ?case by simp
next
  case (Cons c cs)
  show ?case
  proof (cases "c = CHR '',''")
    case True
    with Cons show ?thesis by auto
  next
    case False
    obtain u us where split: "split_commas cs = u # us"
      using split_commas_nonempty [of cs] by (cases "split_commas cs") auto
    with False Cons.prems have "t = c # u \<or> t \<in> set us"
      by simp
    then show ?thesis
    proof
      assume "t = c # u"
      with Cons.IH [of u] split show ?thesis by auto
    next
      assume "t \<in> set us"
      with Cons.IH [of t] split show ?thesis by auto
    qed
  qed
qed

lemma c_string_no_nul: "CHR 0x00 \<notin> set (c_string b)"
  by (auto simp: c_string_def dest: set_takeWhileD)

lemma tolower_names:
  "map tolower ''cuda:managed'' = ''cuda:managed''"
  "map tolower ''cuda:device'' = ''cuda:device''"
  by (simp_all add: tolower_def)

lemma token_managed:
  assumes "CHR 0x00 \<notin> set t"
  shows "(strcasecmp t ''cuda:managed'' = 0) = (map tolower t = ''cuda:managed'')"
  using strcasecmp_eq [OF assms, of "''cuda:managed''"] unfolding tolower_names by simp

lemma token_device:
  assumes "CHR 0x00 \<notin> set t"
  shows "(strcasecmp t ''cuda:device'' = 0) = (map tolower t = ''cuda:device'')"
  using strcasecmp_eq [OF assms, of "''cuda:device''"] unfolding tolower_names by simp

lemma second_branch:
  "a = (y = M) \<Longrightarrow> b = (y = D) \<Longrightarrow> D \<noteq> M \<Longrightarrow> (\<not> a \<and> b) = (y = D)"
  by auto

lemma parse_kinds_has_kind:
  assumes "CHR 0x00 \<notin> set str"
  shows "parse_kinds (Some str) (fresh 0 0 t) =
           fresh (if has_kind Device str then 1 else 0) (if has_kind Managed str then 1 else 0) t"
proof -
  have tok: "CHR 0x00 \<notin> set x" if "x \<in> set (split_commas str)" for x
    using split_commas_chars [OF that] assms by auto
  have names: "''cuda:device'' \<noteq> ''cuda:managed''"
    by simp
  have m: "(\<exists>x\<in>set (split_commas str). strcasecmp x ''cuda:managed'' = 0) = has_kind Managed str"
    unfolding has_kind_def list_ex_iff kind_name.simps
    by (rule bex_cong [OF refl]) (rule token_managed [OF tok])
  have "(strcasecmp x ''cuda:managed'' \<noteq> 0 \<and> strcasecmp x ''cuda:device'' = 0)
          = (map tolower x = ''cuda:device'')" if "x \<in> set (split_commas str)" for x
    by (rule second_branch [OF token_managed [OF tok [OF that]] token_device [OF tok [OF that]] names])
  then have d: "(\<exists>x\<in>set (split_commas str). strcasecmp x ''cuda:managed'' \<noteq> 0 \<and> strcasecmp x ''cuda:device'' = 0)
             = has_kind Device str"
    unfolding has_kind_def list_ex_iff kind_name.simps
    by (rule bex_cong [OF refl])
  show ?thesis
    by (simp add: parse_kinds_tokens m d) (simp add: fresh_def)
qed

subsection \<open>The query\<close>

lemma log_fresh: "log e (fresh d m t) = fresh d m (t @ [e])"
  by (simp add: log_def fresh_def)

lemma after_query_eq:
  "after_query inp = fresh (local_flag Device inp) (local_flag Managed inp) (query_trace inp)"
proof -
  have start: "session_init init = fresh 0 0 [Info_create,
      Info_set ''mpi_memory_alloc_kinds'' ''system,cuda:device,cuda:managed'', Session_init, Info_free]"
    by (simp add: session_init_def init_def fresh_def log_def)
  show ?thesis
  proof (cases "key_found inp \<and> malloc_ok inp")
    case True
    then show ?thesis
      by (simp add: after_query_def query_def start query_trace_def Let_def alloc_def free_def
          log_fresh parse_kinds_has_kind [OF c_string_no_nul])
  next
    case False
    then show ?thesis
      by (auto simp add: after_query_def query_def start query_trace_def Let_def fresh_def log_def)
  qed
qed

lemma main_proceeds: "proceeds inp \<Longrightarrow> main inp = negotiate (after_query inp)"
  by (auto simp add: main_def after_query_def proceeds_def query_def Let_def)


subsection \<open>One process, fed the results of its collective calls\<close>

lemmas run_defs = negotiate_def comm_create_from_group_def allreduce_def execute_def
  finalize_def comm_disconnect_def Let_def log_def host_write_def host_read_def
  host_accessible_def alloc_def
  free_def cudaMemcpyAsync_def cudaStreamSynchronize_def copy_def fresh_def base_comm_def
  create_events_def

lemma req_0: "req (negotiate (fresh d m t)) = Some (Create_comm ''system'' (tag (base_comm n)))"
  by (simp add: run_defs)

lemma req_1: "req (feed [int n] (negotiate (fresh d m t))) = Some (Reduce MPI_LAND m (base_comm n))"
  by (simp add: run_defs)

lemma req_2_managed:
  "req (feed [int n, 1] (negotiate (fresh d m t))) = Some (Create_comm ''cuda:managed'' (tag (kind_comm Managed n)))"
  by (simp add: run_defs)

lemma req_3_managed:
  "req (feed [int n, 1, int n] (negotiate (fresh d m t))) = Some (Reduce MPI_SUM 1 (kind_comm Managed n))"
  by (simp add: run_defs)

lemma req_2: "req (feed [int n, 0] (negotiate (fresh d m t))) = Some (Reduce MPI_LAND d (base_comm n))"
  by (simp add: run_defs)

lemma req_3_device:
  "req (feed [int n, 0, 1] (negotiate (fresh d m t))) = Some (Create_comm ''cuda:device'' (tag (kind_comm Device n)))"
  by (simp add: run_defs)

lemma req_4_device:
  "req (feed [int n, 0, 1, int n] (negotiate (fresh d m t))) = Some (Reduce MPI_SUM 1 (kind_comm Device n))"
  by (simp add: run_defs)

lemma req_3_system:
  "req (feed [int n, 0, 0] (negotiate (fresh d m t))) = Some (Reduce MPI_SUM 1 (base_comm n))"
  by (simp add: run_defs)

lemma feed_managed:
  "feed (results Managed n) (negotiate (fresh d m t)) =
     Finished (Exit 0) ((fresh d 1 (t @ run_trace Managed n))\<lparr>nranks := int n\<rparr>)"
  by (simp add: run_defs)

lemma feed_device:
  "feed (results Device n) (negotiate (fresh d m t)) =
     Finished Fault
       \<lparr>cuda_device_aware = 1, cuda_managed_aware = 0, nranks = int n,
        managed_buf = None, device_buf = Some (int n), system_buf = Some 1,
        system_comm = Some (base_comm n), cuda_managed_comm = None,
        cuda_device_comm = Some (kind_comm Device n),
        stream = [], trace = t @ run_trace Device n\<rparr>"
  by (simp add: run_defs)

lemma feed_system:
  "feed (results System n) (negotiate (fresh d m t)) =
     Finished (Exit 0) ((fresh 0 0 (t @ run_trace System n))\<lparr>nranks := int n\<rparr>)"
  by (simp add: run_defs)

subsection \<open>All processes in step\<close>

lemma resume_feed: "resume r (feed rs p) = feed (rs @ [r]) p"
  by (induction rs arbitrary: p) auto

lemma agree_trans: "agree q a \<Longrightarrow> agree q b \<Longrightarrow> agree a b"
  by (cases q; cases a; cases b) auto

lemma complete_agree: "agree q q' \<Longrightarrow> complete q ps = complete q' ps"
  by (cases q; cases q') auto

lemma req_Some: "req p = Some q \<Longrightarrow> \<exists>k. p = Blocked q k"
  by (cases p) auto

lemma mpi_step_agree:
  assumes "ps \<noteq> []" and all: "\<And>p. p \<in> set ps \<Longrightarrow> \<exists>q'. req p = Some q' \<and> agree q q'"
  shows "mpi_step ps = Some (map (resume (complete q ps)) ps)"
proof (cases ps)
  case Nil
  with assms show ?thesis by simp
next
  case (Cons p0 rest)
  from all [of p0] Cons obtain q0 where q0: "req p0 = Some q0" "agree q q0"
    by auto
  then obtain k0 where p0: "p0 = Blocked q0 k0"
    using req_Some by blast
  have "waits_for q0 p" if "p \<in> set rest" for p
  proof -
    from all [of p] that Cons obtain q' where q': "req p = Some q'" "agree q q'"
      by auto
    then obtain k where "p = Blocked q' k"
      using req_Some by blast
    with agree_trans [OF q0(2) q'(2)] show ?thesis by simp
  qed
  then have "list_all (waits_for q0) rest"
    by (simp add: list_all_iff)
  moreover have "complete q0 ps = complete q ps"
    using complete_agree [OF q0(2)] by simp
  ultimately show ?thesis
    using Cons p0 by simp
qed

lemma mpi_run_round:
  assumes "ins \<noteq> []"
    and "\<And>i. i \<in> set ins \<Longrightarrow> req (feed rs (f i)) = Some (g i)"
    and "\<And>i. i \<in> set ins \<Longrightarrow> agree q (g i)"
    and "complete q (map (\<lambda>i. feed rs (f i)) ins) = r"
  shows "mpi_run (Suc n) (map (\<lambda>i. feed rs (f i)) ins) = mpi_run n (map (\<lambda>i. feed (rs @ [r]) (f i)) ins)"
proof -
  have "mpi_step (map (\<lambda>i. feed rs (f i)) ins)
          = Some (map (resume (complete q (map (\<lambda>i. feed rs (f i)) ins))) (map (\<lambda>i. feed rs (f i)) ins))"
    using assms(1-3) by (intro mpi_step_agree) auto
  then show ?thesis
    by (simp add: assms(4) resume_feed o_def)
qed

lemma contribution_req: "req p = Some (Reduce op v c) \<Longrightarrow> contribution p = v"
  by (cases p) auto

lemma complete_reduce:
  assumes "\<And>i. i \<in> set ins \<Longrightarrow> req (h i) = Some (Reduce op (v i) c)"
  shows "complete (Reduce op v0 c0) (map h ins) = reduce op (map v ins)"
  using assms by (simp add: contribution_req cong: map_cong)

lemma mpi_run_finished:
  assumes "\<And>i. i \<in> set ins \<Longrightarrow> req (h i) = None"
  shows "mpi_run n (map h ins) = map h ins"
proof (cases ins)
  case Nil
  then show ?thesis by (cases n) simp_all
next
  case (Cons i rest)
  with assms [of i] obtain out s where "h i = Finished out s"
    by (cases "h i") auto
  with Cons show ?thesis by (cases n) simp_all
qed

lemma sum_ones: "sum_list (map (\<lambda>i. 1) ins) = int (length ins)"
  by (induction ins) auto

lemma capability_managed: "(Managed \<in> capability_set inp) = (local_flag Managed inp \<noteq> 0)"
  by (simp add: capability_set_def after_query_eq fresh_def)

lemma capability_device: "(Device \<in> capability_set inp) = (local_flag Device inp \<noteq> 0)"
  by (simp add: capability_set_def after_query_eq fresh_def)

lemma common_flags:
  "common (map capability_set ins) Managed = list_all (\<lambda>i. local_flag Managed i \<noteq> 0) ins"
  "common (map capability_set ins) Device = list_all (\<lambda>i. local_flag Device i \<noteq> 0) ins"
  by (simp_all add: common_def list_all_iff capability_managed capability_device del: local_flag.simps)

lemma job_closed_form:
  assumes ok: "list_all proceeds ins"
  shows "mpi_job ins =
           map (\<lambda>i. Finished (final_outcome (spec_negotiate (map capability_set ins)))
                  (final_state (spec_negotiate (map capability_set ins)) (length ins) i)) ins"
proof (cases "ins = []")
  case True
  then show ?thesis by (simp add: mpi_job_def eval_nat_numeral)
next
  case ne: False
  define n where "n = length ins"
  define f where "f = (\<lambda>i. negotiate (fresh (local_flag Device i) (local_flag Managed i) (query_trace i)))"
  define M where "M = reduce MPI_LAND (map (local_flag Managed) ins)"
  define D where "D = reduce MPI_LAND (map (local_flag Device) ins)"
  have five: "(5::nat) = Suc (Suc (Suc (Suc (Suc 0))))"
    by simp
  have mf: "map main ins = map f ins"
    using ok by (simp add: list_all_iff main_proceeds after_query_eq f_def del: local_flag.simps)
  have start: "mpi_job ins = mpi_run (Suc (Suc (Suc (Suc (Suc 0))))) (map (\<lambda>i. feed [] (f i)) ins)"
    unfolding mpi_job_def five mf by (simp del: mpi_run.simps)
  have r1: "mpi_run (Suc m) (map (\<lambda>i. feed [] (f i)) ins) = mpi_run m (map (\<lambda>i. feed ([] @ [int n]) (f i)) ins)" for m
    by (rule mpi_run_round [OF ne, where q = "Create_comm ''system'' (tag (base_comm n))"
          and g = "\<lambda>i. Create_comm ''system'' (tag (base_comm n))"])
       (simp_all add: f_def req_0 n_def del: local_flag.simps)
  have r2: "mpi_run (Suc m) (map (\<lambda>i. feed [int n] (f i)) ins) = mpi_run m (map (\<lambda>i. feed ([int n] @ [M]) (f i)) ins)" for m
  proof (rule mpi_run_round [OF ne, where q = "Reduce MPI_LAND 0 (base_comm n)"
          and g = "\<lambda>i. Reduce MPI_LAND (local_flag Managed i) (base_comm n)"])
    show "req (feed [int n] (f i)) = Some (Reduce MPI_LAND (local_flag Managed i) (base_comm n))" for i
      unfolding f_def by (rule req_1)
    show "agree (Reduce MPI_LAND 0 (base_comm n)) (Reduce MPI_LAND (local_flag Managed i) (base_comm n))" for i
      by simp
    show "complete (Reduce MPI_LAND 0 (base_comm n)) (map (\<lambda>i. feed [int n] (f i)) ins) = M"
      unfolding M_def f_def by (rule complete_reduce) (rule req_1)
  qed
  show ?thesis
  proof (cases "list_all (\<lambda>i. local_flag Managed i \<noteq> 0) ins")
    case all_m: True
    then have k: "spec_negotiate (map capability_set ins) = Managed"
      by (simp add: spec_negotiate_def common_flags del: local_flag.simps)
    have M: "M = 1"
      using all_m by (simp add: M_def list_all_iff del: local_flag.simps)
    have r3: "mpi_run (Suc m) (map (\<lambda>i. feed [int n, 1] (f i)) ins) = mpi_run m (map (\<lambda>i. feed ([int n, 1] @ [int n]) (f i)) ins)" for m
    proof (rule mpi_run_round [OF ne, where q = "Create_comm ''cuda:managed'' (tag (kind_comm Managed n))"
          and g = "\<lambda>i. Create_comm ''cuda:managed'' (tag (kind_comm Managed n))"])
      show "req (feed [int n, 1] (f i)) = Some (Create_comm ''cuda:managed'' (tag (kind_comm Managed n)))" for i
        unfolding f_def by (rule req_2_managed)
      show "agree (Create_comm ''cuda:managed'' (tag (kind_comm Managed n)))
              (Create_comm ''cuda:managed'' (tag (kind_comm Managed n)))"
        by simp
      show "complete (Create_comm ''cuda:managed'' (tag (kind_comm Managed n)))
              (map (\<lambda>i. feed [int n, 1] (f i)) ins) = int n"
        by (simp add: n_def)
    qed
    have r4: "mpi_run (Suc m) (map (\<lambda>i. feed [int n, 1, int n] (f i)) ins) = mpi_run m (map (\<lambda>i. feed ([int n, 1, int n] @ [int n]) (f i)) ins)" for m
    proof (rule mpi_run_round [OF ne, where q = "Reduce MPI_SUM 1 (kind_comm Managed n)"
          and g = "\<lambda>i. Reduce MPI_SUM 1 (kind_comm Managed n)"])
      show "req (feed [int n, 1, int n] (f i)) = Some (Reduce MPI_SUM 1 (kind_comm Managed n))" for i
        unfolding f_def by (rule req_3_managed)
      show "agree (Reduce MPI_SUM 1 (kind_comm Managed n)) (Reduce MPI_SUM 1 (kind_comm Managed n))"
        by simp
      have "complete (Reduce MPI_SUM 1 (kind_comm Managed n)) (map (\<lambda>i. feed [int n, 1, int n] (f i)) ins)
              = reduce MPI_SUM (map (\<lambda>i. 1) ins)"
        unfolding f_def by (rule complete_reduce) (rule req_3_managed)
      then show "complete (Reduce MPI_SUM 1 (kind_comm Managed n)) (map (\<lambda>i. feed [int n, 1, int n] (f i)) ins) = int n"
        by (simp add: sum_ones n_def)
    qed
    have fin: "feed [int n, 1, int n, int n] (f i) = Finished (Exit 0) (final_state Managed n i)" for i
      using feed_managed [of n "local_flag Device i" "local_flag Managed i" "query_trace i"]
      by (simp add: f_def del: local_flag.simps run_trace.simps)
    have "mpi_job ins = mpi_run (Suc 0) (map (\<lambda>i. feed [int n, 1, int n, int n] (f i)) ins)"
      by (simp only: start r1 r2 M r3 r4 append.simps)
    also have "\<dots> = map (\<lambda>i. Finished (Exit 0) (final_state Managed n i)) ins"
      unfolding fin by (rule mpi_run_finished) simp
    finally show ?thesis
      by (simp add: k n_def)
  next
    case not_m: False
    have M: "M = 0"
      using not_m by (simp add: M_def list_all_iff del: local_flag.simps)
    have r3: "mpi_run (Suc m) (map (\<lambda>i. feed [int n, 0] (f i)) ins) = mpi_run m (map (\<lambda>i. feed ([int n, 0] @ [D]) (f i)) ins)" for m
    proof (rule mpi_run_round [OF ne, where q = "Reduce MPI_LAND 0 (base_comm n)"
          and g = "\<lambda>i. Reduce MPI_LAND (local_flag Device i) (base_comm n)"])
      show "req (feed [int n, 0] (f i)) = Some (Reduce MPI_LAND (local_flag Device i) (base_comm n))" for i
        unfolding f_def by (rule req_2)
      show "agree (Reduce MPI_LAND 0 (base_comm n)) (Reduce MPI_LAND (local_flag Device i) (base_comm n))" for i
        by simp
      show "complete (Reduce MPI_LAND 0 (base_comm n)) (map (\<lambda>i. feed [int n, 0] (f i)) ins) = D"
        unfolding D_def f_def by (rule complete_reduce) (rule req_2)
    qed
    show ?thesis
    proof (cases "list_all (\<lambda>i. local_flag Device i \<noteq> 0) ins")
      case all_d: True
      then have k: "spec_negotiate (map capability_set ins) = Device"
        using not_m by (simp add: spec_negotiate_def common_flags del: local_flag.simps)
      have D: "D = 1"
        using all_d by (simp add: D_def list_all_iff del: local_flag.simps)
      have r4: "mpi_run (Suc m) (map (\<lambda>i. feed [int n, 0, 1] (f i)) ins) = mpi_run m (map (\<lambda>i. feed ([int n, 0, 1] @ [int n]) (f i)) ins)" for m
      proof (rule mpi_run_round [OF ne, where q = "Create_comm ''cuda:device'' (tag (kind_comm Device n))"
            and g = "\<lambda>i. Create_comm ''cuda:device'' (tag (kind_comm Device n))"])
        show "req (feed [int n, 0, 1] (f i)) = Some (Create_comm ''cuda:device'' (tag (kind_comm Device n)))" for i
          unfolding f_def by (rule req_3_device)
        show "agree (Create_comm ''cuda:device'' (tag (kind_comm Device n)))
                (Create_comm ''cuda:device'' (tag (kind_comm Device n)))"
          by simp
        show "complete (Create_comm ''cuda:device'' (tag (kind_comm Device n)))
                (map (\<lambda>i. feed [int n, 0, 1] (f i)) ins) = int n"
          by (simp add: n_def)
      qed
      have r5: "mpi_run (Suc m) (map (\<lambda>i. feed [int n, 0, 1, int n] (f i)) ins) = mpi_run m (map (\<lambda>i. feed ([int n, 0, 1, int n] @ [int n]) (f i)) ins)" for m
      proof (rule mpi_run_round [OF ne, where q = "Reduce MPI_SUM 1 (kind_comm Device n)"
            and g = "\<lambda>i. Reduce MPI_SUM 1 (kind_comm Device n)"])
        show "req (feed [int n, 0, 1, int n] (f i)) = Some (Reduce MPI_SUM 1 (kind_comm Device n))" for i
          unfolding f_def by (rule req_4_device)
        show "agree (Reduce MPI_SUM 1 (kind_comm Device n)) (Reduce MPI_SUM 1 (kind_comm Device n))"
          by simp
        have "complete (Reduce MPI_SUM 1 (kind_comm Device n)) (map (\<lambda>i. feed [int n, 0, 1, int n] (f i)) ins)
                = reduce MPI_SUM (map (\<lambda>i. 1) ins)"
          unfolding f_def by (rule complete_reduce) (rule req_4_device)
        then show "complete (Reduce MPI_SUM 1 (kind_comm Device n)) (map (\<lambda>i. feed [int n, 0, 1, int n] (f i)) ins) = int n"
          by (simp add: sum_ones n_def)
      qed
      have fin: "feed [int n, 0, 1, int n, int n] (f i) = Finished Fault (final_state Device n i)" for i
        using feed_device [of n "local_flag Device i" "local_flag Managed i" "query_trace i"]
        by (simp add: f_def del: local_flag.simps run_trace.simps)
      have "mpi_job ins = mpi_run 0 (map (\<lambda>i. feed [int n, 0, 1, int n, int n] (f i)) ins)"
        by (simp only: start r1 r2 M r3 D r4 r5 append.simps)
      also have "\<dots> = map (\<lambda>i. Finished Fault (final_state Device n i)) ins"
        unfolding fin by simp
      finally show ?thesis
        by (simp add: k n_def)
    next
      case not_d: False
      then have k: "spec_negotiate (map capability_set ins) = System"
        using not_m by (simp add: spec_negotiate_def common_flags del: local_flag.simps)
      have D: "D = 0"
        using not_d by (simp add: D_def list_all_iff del: local_flag.simps)
      have r4: "mpi_run (Suc m) (map (\<lambda>i. feed [int n, 0, 0] (f i)) ins) = mpi_run m (map (\<lambda>i. feed ([int n, 0, 0] @ [int n]) (f i)) ins)" for m
      proof (rule mpi_run_round [OF ne, where q = "Reduce MPI_SUM 1 (base_comm n)"
            and g = "\<lambda>i. Reduce MPI_SUM 1 (base_comm n)"])
        show "req (feed [int n, 0, 0] (f i)) = Some (Reduce MPI_SUM 1 (base_comm n))" for i
          unfolding f_def by (rule req_3_system)
        show "agree (Reduce MPI_SUM 1 (base_comm n)) (Reduce MPI_SUM 1 (base_comm n))"
          by simp
        have "complete (Reduce MPI_SUM 1 (base_comm n)) (map (\<lambda>i. feed [int n, 0, 0] (f i)) ins)
                = reduce MPI_SUM (map (\<lambda>i. 1) ins)"
          unfolding f_def by (rule complete_reduce) (rule req_3_system)
        then show "complete (Reduce MPI_SUM 1 (base_comm n)) (map (\<lambda>i. feed [int n, 0, 0] (f i)) ins) = int n"
          by (simp add: sum_ones n_def)
      qed
      have fin: "feed [int n, 0, 0, int n] (f i) = Finished (Exit 0) (final_state System n i)" for i
        using feed_system [of n "local_flag Device i" "local_flag Managed i" "query_trace i"]
        by (simp add: f_def del: local_flag.simps run_trace.simps)
      have "mpi_job ins = mpi_run (Suc 0) (map (\<lambda>i. feed [int n, 0, 0, int n] (f i)) ins)"
        by (simp only: start r1 r2 M r3 D r4 append.simps)
      also have "\<dots> = map (\<lambda>i. Finished (Exit 0) (final_state System n i)) ins"
        unfolding fin by (rule mpi_run_finished) simp
      finally show ?thesis
        by (simp add: k n_def)
    qed
  qed
qed


lemma query_proceeds: "proceeds inp \<Longrightarrow> query inp (session_init init) = Inr (after_query inp)"
  by (auto simp add: after_query_def proceeds_def query_def Let_def)

subsection \<open>What a finished process has done\<close>

lemma trace_final_state: "trace (final_state k n i) = query_trace i @ run_trace k n"
  by (cases k) (simp_all add: fresh_def del: run_trace.simps)

lemma negotiated_final_state: "negotiated (final_state k n i) = k"
  by (cases k) (simp_all add: fresh_def negotiated_def)

lemma job_process:
  assumes "list_all proceeds ins" and "p \<in> set (mpi_job ins)"
  shows "\<exists>i\<in>set ins. p = Finished (final_outcome (spec_negotiate (map capability_set ins)))
           (final_state (spec_negotiate (map capability_set ins)) (length ins) i)"
  using assms(2) unfolding job_closed_form [OF assms(1)] by auto




lemma common_set: "common (map capability_set ins) k = (\<forall>i\<in>set ins. k \<in> capability_set i)"
  by (simp add: common_def list_all_iff)

lemma spec_negotiate_set:
  "set ins' = set ins \<Longrightarrow>
   spec_negotiate (map capability_set ins') = spec_negotiate (map capability_set ins)"
  by (simp add: spec_negotiate_def common_set)

lemma job_result_kinds:
  assumes "list_all proceeds ins"
  shows "map result_kind (mpi_job ins) =
           replicate (length ins) (Some (spec_negotiate (map capability_set ins)))"
  unfolding job_closed_form [OF assms]
  by (simp add: negotiated_final_state map_replicate_const o_def)

lemma job_all:
  assumes "list_all proceeds ins"
    and "\<And>i k. Q (final_outcome k) (final_state k (length ins) i)"
  shows "\<forall>p\<in>set (mpi_job ins). \<exists>out s. p = Finished out s \<and> Q out s"
  using job_process [OF assms(1)] assms(2) by blast

lemma length_job: "list_all proceeds ins \<Longrightarrow> length (mpi_job ins) = length ins"
  by (simp add: job_closed_form)

subsection \<open>The example processes\<close>

lemma proceeds_examples:
  "proceeds proc_full" "proceeds proc_device" "proceeds proc_system" "\<not> proceeds proc_failing"
  by (simp_all add: proceeds_def proc_full_def proc_device_def proc_system_def proc_failing_def)

lemma flags_examples:
  "local_flag Managed proc_full = 1" "local_flag Device proc_full = 1"
  "local_flag Managed proc_device = 0" "local_flag Device proc_device = 1"
  "local_flag Managed proc_system = 0" "local_flag Device proc_system = 0"
  by code_simp+

lemma capability_examples:
  "capability_set proc_full = {Managed, Device}"
  "capability_set proc_device = {Device}"
  "capability_set proc_system = {}"
  by (auto simp add: capability_set_def after_query_eq fresh_def flags_examples simp del: local_flag.simps)

lemma negotiate_examples:
  "spec_negotiate (map capability_set [proc_full, proc_full, proc_full, proc_full]) = Managed"
  "spec_negotiate (map capability_set [proc_full, proc_device, proc_full, proc_device]) = Device"
  "spec_negotiate (map capability_set [proc_full, proc_device, proc_system]) = System"
  "spec_negotiate (map capability_set [proc_device]) = Device"
  by (simp_all add: spec_negotiate_def common_def capability_examples)

section \<open>The capability query (C3)\<close>

text \<open>
  C3, as the specification has it: the query splits the value on commas, trims each token
  and compares it ignoring case. The source does not trim: with the value
  \<open>system, cuda:device\<close> the trimmed second token is the Device identifier, and the loop of
  lines 42 to 49 leaves \<open>cuda_device_aware\<close> at 0.
\<close>

theorem query_trims_counterexample:
  "spec_has_kind Device (c_string ''system, cuda:device'') \<and>
   cuda_device_aware (after_query \<lparr>key_found = True, kinds_value = ''system, cuda:device'', malloc_ok = True\<rparr>) = 0"
proof -
  have s: "spec_has_kind Device (c_string ''system, cuda:device'')"
    by code_simp
  have d: "\<not> has_kind Device (c_string ''system, cuda:device'')"
    by code_simp
  show ?thesis
    using s d by (simp add: after_query_eq fresh_def)
qed

text \<open>
  C3, amended: a process that gets past line 37 leaves the query normally; each of the two
  flags is set if and only if the key is present and some comma-separated token of the
  value, taken as it is (no trimming), equals the kind's identifier ignoring case. With the
  key absent both flags stay 0: the empty capability set.
\<close>

theorem query_flags:
  assumes "proceeds inp"
  shows "query inp (session_init init) = Inr (after_query inp) \<and>
         (cuda_managed_aware (after_query inp) \<noteq> 0) =
           (key_found inp \<and> has_kind Managed (c_string (kinds_value inp))) \<and>
         (cuda_device_aware (after_query inp) \<noteq> 0) =
           (key_found inp \<and> has_kind Device (c_string (kinds_value inp)))"
  using assms by (auto simp add: query_proceeds after_query_eq fresh_def proceeds_def)

theorem query_flags_witness:
  "proceeds \<lparr>key_found = True, kinds_value = ''system,CUDA:Device, cuda:managed'', malloc_ok = True\<rparr> \<and>
   cuda_managed_aware (after_query \<lparr>key_found = True, kinds_value = ''system,CUDA:Device, cuda:managed'', malloc_ok = True\<rparr>) = 0 \<and>
   cuda_device_aware (after_query \<lparr>key_found = True, kinds_value = ''system,CUDA:Device, cuda:managed'', malloc_ok = True\<rparr>) \<noteq> 0"
proof -
  have d: "has_kind Device (c_string ''system,CUDA:Device, cuda:managed'')"
    by code_simp
  have m: "\<not> has_kind Managed (c_string ''system,CUDA:Device, cuda:managed'')"
    by code_simp
  show ?thesis
    using query_flags [of "\<lparr>key_found = True, kinds_value = ''system,CUDA:Device, cuda:managed'', malloc_ok = True\<rparr>"] d m
    by (simp add: proceeds_def)
qed

section \<open>The negotiation (C1, C9)\<close>

text \<open>
  C1: in a job in which every process gets past line 37, every process agrees on the same
  kind: the kind that the two group-wide ANDs select over the local flags (Managed if every
  process has it, else Device if every process has it, else System). That kind is an
  accelerator kind only if it is in every process's capability set, and no accelerator kind
  common to all processes is preferred to it.
\<close>

theorem negotiation_highest_common:
  assumes "list_all proceeds ins"
  shows "let sets = map capability_set ins; k = spec_negotiate sets in
           map result_kind (mpi_job ins) = replicate (length ins) (Some k) \<and>
           (k \<noteq> System \<longrightarrow> common sets k) \<and>
           (\<forall>k'. k' \<noteq> System \<and> common sets k' \<longrightarrow> pref k' \<le> pref k)"
proof -
  have "k' \<noteq> System \<and> common (map capability_set ins) k' \<longrightarrow>
          pref k' \<le> pref (spec_negotiate (map capability_set ins))" for k'
    by (cases k') (simp_all add: spec_negotiate_def)
  moreover have "spec_negotiate (map capability_set ins) \<noteq> System \<longrightarrow>
      common (map capability_set ins) (spec_negotiate (map capability_set ins))"
    by (simp add: spec_negotiate_def)
  ultimately show ?thesis
    using job_result_kinds [OF assms] by (simp add: Let_def)
qed

theorem negotiation_highest_common_witness:
  "list_all proceeds [proc_full, proc_device, proc_full, proc_device] \<and>
   map result_kind (mpi_job [proc_full, proc_device, proc_full, proc_device]) =
     [Some Device, Some Device, Some Device, Some Device]"
proof -
  have h: "list_all proceeds [proc_full, proc_device, proc_full, proc_device]"
    by (simp add: proceeds_examples)
  show ?thesis
    using negotiation_highest_common [OF h] h
    unfolding Let_def negotiate_examples by (simp add: eval_nat_numeral)
qed

text \<open>
  C9: permuting which process holds which input changes neither the results of the two
  AND-reductions over the local flags nor the kind the processes agree on.
\<close>

theorem negotiation_permutation_invariant:
  assumes "list_all proceeds ins" and "mset ins' = mset ins"
  shows "map result_kind (mpi_job ins') = map result_kind (mpi_job ins) \<and>
         reduce MPI_LAND (map (\<lambda>i. cuda_managed_aware (after_query i)) ins') =
           reduce MPI_LAND (map (\<lambda>i. cuda_managed_aware (after_query i)) ins) \<and>
         reduce MPI_LAND (map (\<lambda>i. cuda_device_aware (after_query i)) ins') =
           reduce MPI_LAND (map (\<lambda>i. cuda_device_aware (after_query i)) ins)"
proof -
  have sets: "set ins' = set ins"
    using assms(2) by (rule mset_eq_setD)
  have len: "length ins' = length ins"
    using assms(2) by (rule mset_eq_length)
  have ok: "list_all proceeds ins'"
    using assms(1) sets by (simp add: list_all_iff)
  show ?thesis
    using sets len
    by (simp add: job_result_kinds [OF ok] job_result_kinds [OF assms(1)] spec_negotiate_set [OF sets]
        list_all_iff)
qed

theorem negotiation_permutation_invariant_witness:
  "list_all proceeds [proc_full, proc_system, proc_device] \<and>
   mset [proc_device, proc_full, proc_system] = mset [proc_full, proc_system, proc_device] \<and>
   map result_kind (mpi_job [proc_device, proc_full, proc_system]) =
     map result_kind (mpi_job [proc_full, proc_system, proc_device])"
proof -
  have h: "list_all proceeds [proc_full, proc_system, proc_device]"
    by (simp add: proceeds_examples)
  have m: "mset [proc_device, proc_full, proc_system] = mset [proc_full, proc_system, proc_device]"
    by (simp add: add_mset_commute)
  have "map result_kind (mpi_job [proc_device, proc_full, proc_system]) =
     map result_kind (mpi_job [proc_full, proc_system, proc_device])"
    using negotiation_permutation_invariant [OF h m] by (rule conjunct1)
  with h m show ?thesis
    by (intro conjI)
qed

section \<open>The reduction (C2, C10)\<close>






section \<open>Host accesses to device memory (C4)\<close>

text \<open>
  C4 says that host code never dereferences a Device buffer. The \<open>assert\<close> of line 137
  does: in a job of one process that supports system and device memory, the process makes
  one host access to memory that is not host-accessible, the read of the device buffer, and
  it is killed there.
\<close>

theorem device_path_dereferences_device_buffer:
  "map host_violations (mpi_job [proc_device]) = [[Host_read R_device_buf None]] \<and>
   region_kind R_device_buf = Device \<and>
   map ending (mpi_job [proc_device]) = [Some Fault]"
proof -
  have h: "list_all proceeds [proc_device]"
    by (simp add: proceeds_examples)
  show ?thesis
    unfolding job_closed_form [OF h] negotiate_examples
    by (simp add: trace_final_state query_trace_def create_events_def)
qed

section \<open>Communicators (C5, C6)\<close>

text \<open>
  What every process of a job in which no process returns at line 37 does with
  communicators: it creates one before its first reduction, asserting \<open>system\<close>, and after
  the last negotiation reduction one more, asserting the negotiated kind, when that kind is
  Managed or Device; it creates no other; and no release comes at or after
  \<open>MPI_Session_finalize\<close>. On the Managed and the fallback path it releases exactly the
  communicators it created, each once, and finalizes the session; on the Device path it
  releases none and does not finalize.
\<close>

lemma communicators_by_path:
  assumes "list_all proceeds ins"
  shows "\<forall>p\<in>set (mpi_job ins). \<exists>out s. p = Finished out s \<and>
           map asserted (creations (before_negotiation (trace s))) = [kind_name System] \<and>
           map asserted (creations (after_negotiation (trace s))) =
             (if negotiated s = System then [] else [kind_name (negotiated s)]) \<and>
           creations (trace s) =
             creations (before_negotiation (trace s)) @ creations (after_negotiation (trace s)) \<and>
           distinct (creations (trace s)) \<and>
           releases (after_finalize (trace s)) = [] \<and>
           (if negotiated s = Device
            then releases (trace s) = [] \<and> Session_finalize \<notin> set (trace s)
            else mset (releases (trace s)) = mset (creations (trace s)) \<and>
                 Session_finalize \<in> set (trace s))"
proof (rule job_all [OF assms])
  fix i k
  let ?s = "final_state k (length ins) i"
  have t: "trace ?s = query_trace i @ run_trace k (length ins)"
    by (rule trace_final_state)
  have 1: "map asserted (creations (before_negotiation (trace ?s))) = [kind_name System]"
    unfolding t
    by (cases k) (simp_all add: query_trace_def create_events_def before_negotiation_def base_comm_def)
  have 2: "map asserted (creations (after_negotiation (trace ?s))) =
             (if k = System then [] else [kind_name k])"
    unfolding t
    by (cases k) (simp_all add: query_trace_def create_events_def after_negotiation_def base_comm_def)
  have 3: "creations (trace ?s) =
             creations (before_negotiation (trace ?s)) @ creations (after_negotiation (trace ?s))"
    unfolding t
    by (cases k)
      (simp_all add: query_trace_def create_events_def before_negotiation_def
        after_negotiation_def base_comm_def)
  have 4: "distinct (creations (trace ?s))"
    unfolding t by (cases k) (simp_all add: query_trace_def create_events_def base_comm_def)
  have 5: "releases (after_finalize (trace ?s)) = []"
    unfolding t by (cases k) (simp_all add: query_trace_def create_events_def after_finalize_def)
  have 6: "if k = Device
            then releases (trace ?s) = [] \<and> Session_finalize \<notin> set (trace ?s)
            else mset (releases (trace ?s)) = mset (creations (trace ?s)) \<and>
                 Session_finalize \<in> set (trace ?s)"
    unfolding t by (cases k) (simp_all add: query_trace_def create_events_def base_comm_def)
  show "map asserted (creations (before_negotiation (trace ?s))) = [kind_name System] \<and>
           map asserted (creations (after_negotiation (trace ?s))) =
             (if negotiated ?s = System then [] else [kind_name (negotiated ?s)]) \<and>
           creations (trace ?s) =
             creations (before_negotiation (trace ?s)) @ creations (after_negotiation (trace ?s)) \<and>
           distinct (creations (trace ?s)) \<and>
           releases (after_finalize (trace ?s)) = [] \<and>
           (if negotiated ?s = Device
            then releases (trace ?s) = [] \<and> Session_finalize \<notin> set (trace ?s)
            else mset (releases (trace ?s)) = mset (creations (trace ?s)) \<and>
                 Session_finalize \<in> set (trace ?s))"
    unfolding negotiated_final_state using 1 2 3 4 5 6 by blast
qed

text \<open>
  C5 says that every communicator a process creates is released exactly once before the
  session is finalized. Lines 159 to 165 do that, but on the Device path they are not
  reached: in a job of one process that supports system and device memory, the process has
  created the communicator asserting \<open>system\<close> and the one asserting \<open>cuda:device\<close> when it
  is killed at line 137, and it has released neither and not finalized the session.
\<close>

theorem device_path_leaves_communicators_open:
  "map ending (mpi_job [proc_device]) = [Some Fault] \<and>
   map created (mpi_job [proc_device]) = [[''system'', ''cuda:device'']] \<and>
   map released (mpi_job [proc_device]) = [[]] \<and>
   map finalized (mpi_job [proc_device]) = [False]"
proof -
  have h: "list_all proceeds [proc_device]"
    by (simp add: proceeds_examples)
  show ?thesis
    unfolding job_closed_form [OF h] negotiate_examples
    by (simp add: created_def released_def finalized_def trace_final_state query_trace_def
        create_events_def base_comm_def)
qed

text \<open>
  C6: in a job in which every process gets past line 37, every reduction a process makes
  is over a communicator that asserts the memory kind of the buffer: the flags and the
  system buffer go with the communicator asserting \<open>system\<close>, the managed buffer with the
  one asserting \<open>cuda:managed\<close>, the device buffer with the one asserting \<open>cuda:device\<close>.
\<close>

theorem reductions_match_communicator:
  assumes "list_all proceeds ins"
  shows "length (mpi_job ins) = length ins \<and>
         (\<forall>p\<in>set (mpi_job ins). \<exists>out s. p = Finished out s \<and>
           list_all comm_matches (trace s) \<and>
           reductions (trace s) =
             (case negotiated s of
                Managed \<Rightarrow> [(MPI_LAND, R_cuda_managed_aware, ''system''),
                            (MPI_SUM, R_managed_buf, ''cuda:managed'')]
              | Device \<Rightarrow> [(MPI_LAND, R_cuda_managed_aware, ''system''),
                           (MPI_LAND, R_cuda_device_aware, ''system''),
                           (MPI_SUM, R_device_buf, ''cuda:device'')]
              | System \<Rightarrow> [(MPI_LAND, R_cuda_managed_aware, ''system''),
                           (MPI_LAND, R_cuda_device_aware, ''system''),
                           (MPI_SUM, R_system_buf, ''system'')]))"
proof (rule conjI [OF length_job [OF assms] job_all [OF assms]])
  fix i k
  let ?s = "final_state k (length ins) i"
  have t: "trace ?s = query_trace i @ run_trace k (length ins)"
    by (rule trace_final_state)
  have 1: "list_all comm_matches (trace ?s)"
    unfolding t by (cases k) (simp_all add: query_trace_def create_events_def base_comm_def)
  have 2: "reductions (trace ?s) =
             (case k of
                Managed \<Rightarrow> [(MPI_LAND, R_cuda_managed_aware, ''system''),
                            (MPI_SUM, R_managed_buf, ''cuda:managed'')]
              | Device \<Rightarrow> [(MPI_LAND, R_cuda_managed_aware, ''system''),
                           (MPI_LAND, R_cuda_device_aware, ''system''),
                           (MPI_SUM, R_device_buf, ''cuda:device'')]
              | System \<Rightarrow> [(MPI_LAND, R_cuda_managed_aware, ''system''),
                           (MPI_LAND, R_cuda_device_aware, ''system''),
                           (MPI_SUM, R_system_buf, ''system'')])"
    unfolding t by (cases k) (simp_all add: query_trace_def create_events_def base_comm_def)
  show "list_all comm_matches (trace ?s) \<and>
           reductions (trace ?s) =
             (case negotiated ?s of
                Managed \<Rightarrow> [(MPI_LAND, R_cuda_managed_aware, ''system''),
                            (MPI_SUM, R_managed_buf, ''cuda:managed'')]
              | Device \<Rightarrow> [(MPI_LAND, R_cuda_managed_aware, ''system''),
                           (MPI_LAND, R_cuda_device_aware, ''system''),
                           (MPI_SUM, R_device_buf, ''cuda:device'')]
              | System \<Rightarrow> [(MPI_LAND, R_cuda_managed_aware, ''system''),
                           (MPI_LAND, R_cuda_device_aware, ''system''),
                           (MPI_SUM, R_system_buf, ''system'')])"
    unfolding negotiated_final_state using 1 2 by blast
qed

theorem reductions_match_communicator_witness:
  "list_all proceeds [proc_full, proc_device, proc_system] \<and>
   length (mpi_job [proc_full, proc_device, proc_system]) = 3 \<and>
   list_all (\<lambda>p. \<exists>out s. p = Finished out s \<and> list_all comm_matches (trace s) \<and>
       length (reductions (trace s)) \<ge> 2)
     (mpi_job [proc_full, proc_device, proc_system])"
proof -
  have h: "list_all proceeds [proc_full, proc_device, proc_system]"
    by (simp add: proceeds_examples)
  have "\<exists>out s. p = Finished out s \<and> list_all comm_matches (trace s) \<and>
       length (reductions (trace s)) \<ge> 2"
    if "p \<in> set (mpi_job [proc_full, proc_device, proc_system])" for p
  proof -
    from reductions_match_communicator [OF h] that obtain out s where s: "p = Finished out s"
      "list_all comm_matches (trace s)"
      "reductions (trace s) =
             (case negotiated s of
                Managed \<Rightarrow> [(MPI_LAND, R_cuda_managed_aware, ''system''),
                            (MPI_SUM, R_managed_buf, ''cuda:managed'')]
              | Device \<Rightarrow> [(MPI_LAND, R_cuda_managed_aware, ''system''),
                           (MPI_LAND, R_cuda_device_aware, ''system''),
                           (MPI_SUM, R_device_buf, ''cuda:device'')]
              | System \<Rightarrow> [(MPI_LAND, R_cuda_managed_aware, ''system''),
                           (MPI_LAND, R_cuda_device_aware, ''system''),
                           (MPI_SUM, R_system_buf, ''system'')])"
      by blast
    from s(3) have "length (reductions (trace s)) \<ge> 2"
      by (cases "negotiated s") simp_all
    with s show ?thesis
      by blast
  qed
  moreover have "length (mpi_job [proc_full, proc_device, proc_system]) = 3"
    using h by (simp add: length_job)
  ultimately show ?thesis
    using h by (simp add: list_all_iff)
qed

section \<open>Asynchronous copies (C7)\<close>

text \<open>
  C7: in a job in which every process gets past line 37, no process uses (reads, writes,
  reduces over, copies from or to, or frees) the destination of an asynchronous copy
  between the copy and the next \<open>cudaStreamSynchronize\<close>, and no copy is left without one.
\<close>

theorem copies_synchronised:
  assumes "list_all proceeds ins"
  shows "length (mpi_job ins) = length ins \<and>
         (\<forall>p\<in>set (mpi_job ins). \<exists>out s. p = Finished out s \<and>
           sync_ok [] (trace s) \<and> stream s = [])"
proof (rule conjI [OF length_job [OF assms] job_all [OF assms]])
  fix i k
  let ?s = "final_state k (length ins) i"
  have "sync_ok [] (trace ?s)"
    unfolding trace_final_state
    by (cases k) (simp_all add: query_trace_def create_events_def)
  moreover have "stream ?s = []"
    by (cases k) (simp_all add: fresh_def)
  ultimately show "sync_ok [] (trace ?s) \<and> stream ?s = []"
    by blast
qed

theorem copies_synchronised_witness:
  "list_all proceeds [proc_full, proc_device, proc_system] \<and>
   length (mpi_job [proc_full, proc_device, proc_system]) = 3 \<and>
   list_all (\<lambda>p. \<exists>out s. p = Finished out s \<and> sync_ok [] (trace s) \<and> stream s = [])
     (mpi_job [proc_full, proc_device, proc_system])"
proof -
  have h: "list_all proceeds [proc_full, proc_device, proc_system]"
    by (simp add: proceeds_examples)
  show ?thesis
    using copies_synchronised [OF h] h by (simp add: list_all_iff)
qed

section \<open>Exit codes (C8)\<close>



end
